theory Spec2Isabelle
  imports Main "HOL-Library.AList"
begin

section \<open>The director pipeline of add\_directors.py\<close>

text \<open>
  The script enriches a movie store with two derived tables, \<open>directors\<close> and
  \<open>movie_directors\<close>, computed from two tab-separated extracts. The embedding below
  follows \<open>DirectorDatabaseBuilder\<close> method by method.

  \<^item> A record of \<open>csv.DictReader\<close> is a Python dict from column names to strings;
    \<open>row.get(k)\<close> is \<open>None\<close> for a column that the header or a short line lacks. A
    row is therefore a map, and \<open>row k\<close> is \<open>row.get(k)\<close>.
  \<^item> A Python dict is insertion ordered: it is an association list with distinct keys,
    \<open>d[k] = v\<close> is \<open>AList.update\<close> (overwrite in place, or append a new key) and
    \<open>k in d\<close> is \<open>map_of d k \<noteq> None\<close>.
  \<^item> A Python set is a list without duplicates. The order in which Python iterates
    over a set of strings is not fixed (it depends on the hash seed of the process),
    so every function that iterates over a set takes that order as a parameter.
  \<^item> The store is a record of its tables; \<open>None\<close> is a table that does not exist.
    A statement that sqlite refuses is an error value, returned with the store as the
    last commit left it.
\<close>

subsection \<open>Rows, sets and dicts\<close>

type_synonym row = "string \<rightharpoonup> string"

definition null_sentinel :: string where
  \<comment> \<open>the Python literal \<open>'\\N'\<close>: a backslash followed by \<open>N\<close>\<close>
  "null_sentinel = [CHR 0x5C, CHR ''N'']"

definition set_add :: "'a \<Rightarrow> 'a list \<Rightarrow> 'a list" where
  \<comment> \<open>\<open>s.add(x)\<close>\<close>
  "set_add x s = (if x \<in> set s then s else s @ [x])"

definition iteration_order :: "('a list \<Rightarrow> 'a list) \<Rightarrow> bool" where
  \<comment> \<open>what is known of the order in which a set is iterated: every element once\<close>
  "iteration_order ord \<longleftrightarrow> (\<forall>s. distinct s \<longrightarrow> distinct (ord s) \<and> set (ord s) = set s)"

subsection \<open>The store\<close>

datatype error = OperationalError string | IntegrityError string

record 'm store =
  movies :: "(string \<times> 'm) list option"
  directors :: "(string \<times> string) list option"
  movie_directors :: "(string \<times> string) list option"
  directors_fts :: "(nat \<times> string) list option"
  link_indexes :: "string list"

text \<open>
  A row of \<open>movies\<close> is its \<open>tconst\<close> with the other columns, of which the script
  knows nothing (\<open>'m\<close>). A row of \<open>directors\<close> is \<open>(nconst, name)\<close>, a row of
  \<open>movie_directors\<close> is \<open>(tconst, nconst)\<close>, a row of \<open>directors_fts\<close> is
  \<open>(rowid, name)\<close>. \<open>link_indexes\<close> holds the names of the indexes on
  \<open>movie_directors\<close>; they are dropped with their table.
\<close>

fun insert_rows :: "('r \<Rightarrow> 'k) \<Rightarrow> 'r list \<Rightarrow> 'r list \<Rightarrow> 'r list option" where
  \<comment> \<open>\<open>INSERT\<close> of a batch, row by row, into a table with a primary key; \<open>None\<close> is the
      UNIQUE constraint failing\<close>
  "insert_rows key tbl [] = Some tbl"
| "insert_rows key tbl (r # rs) =
     (if key r \<in> key ` set tbl then None else insert_rows key (tbl @ [r]) rs)"

definition drop_existing_tables :: "'m store \<Rightarrow> 'm store" where
  "drop_existing_tables s =
     s\<lparr>directors_fts := None, movie_directors := None, link_indexes := [],
       directors := None\<rparr>"

definition create_tables :: "'m store \<Rightarrow> (error + unit) \<times> 'm store" where
  "create_tables s =
     (case directors s of
        Some _ \<Rightarrow> (Inl (OperationalError ''table directors already exists''), s)
      | None \<Rightarrow>
          (let s1 = s\<lparr>directors := Some []\<rparr> in
           case movie_directors s1 of
             Some _ \<Rightarrow> (Inl (OperationalError ''table movie_directors already exists''), s1)
           | None \<Rightarrow> (Inr (), s1\<lparr>movie_directors := Some []\<rparr>)))"

definition get_existing_movie_ids :: "'m store \<Rightarrow> error + string list" where
  "get_existing_movie_ids s =
     (case movies s of
        None \<Rightarrow> Inl (OperationalError ''no such table: movies'')
      | Some rows \<Rightarrow> Inr (remdups (map fst rows)))"

subsection \<open>Relationship extractor\<close>

definition relationship_step ::
  "string list \<Rightarrow> (string \<times> string list) list \<Rightarrow> row \<Rightarrow> (string \<times> string list) list" where
  \<comment> \<open>the body of the loop over Extract A; the two counters it keeps are only printed\<close>
  "relationship_step existing_movies director_movies row =
     (if row ''category'' \<noteq> Some ''director'' then director_movies
      else
        (case row ''tconst'' of
           None \<Rightarrow> director_movies
         | Some tconst \<Rightarrow>
             (case row ''nconst'' of
                None \<Rightarrow> director_movies
              | Some nconst \<Rightarrow>
                  if tconst = [] \<or> nconst = [] \<or> tconst \<notin> set existing_movies
                  then director_movies
                  else
                    (let dm = (if map_of director_movies nconst = None
                               then AList.update nconst [] director_movies
                               else director_movies)
                     in AList.map_entry nconst (set_add tconst) dm))))"

definition extract_director_relationships ::
  "string list \<Rightarrow> row list \<Rightarrow> (string \<times> string list) list" where
  "extract_director_relationships existing_movies extract_a =
     foldl (relationship_step existing_movies) [] extract_a"

subsection \<open>Name resolver\<close>

text \<open>
  The state of the scan of Extract B is \<open>(director_names, rows_processed,
  names_found)\<close>. The loop leaves by \<open>break\<close> when, after a row of a needed key,
  \<open>names_found\<close> equals the size of the needed set; a row of another key goes on
  to the next row before that test.
\<close>

fun names_loop ::
  "string list \<Rightarrow> row list \<Rightarrow> (string \<times> string) list \<times> nat \<times> nat \<Rightarrow>
   (string \<times> string) list \<times> nat \<times> nat" where
  "names_loop needed_nconsts [] st = st"
| "names_loop needed_nconsts (row # rest) (director_names, rows_processed, names_found) =
     (case row ''nconst'' of
        None \<Rightarrow> names_loop needed_nconsts rest (director_names, rows_processed + 1, names_found)
      | Some nconst \<Rightarrow>
          if nconst \<notin> set needed_nconsts
          then names_loop needed_nconsts rest (director_names, rows_processed + 1, names_found)
          else
            (let (director_names', names_found') =
                   (case row ''primaryName'' of
                      None \<Rightarrow> (director_names, names_found)
                    | Some name \<Rightarrow>
                        if name \<noteq> [] \<and> name \<noteq> null_sentinel
                        then (AList.update nconst name director_names, names_found + 1)
                        else (director_names, names_found))
             in if names_found' = length needed_nconsts
                then (director_names', rows_processed + 1, names_found')
                else names_loop needed_nconsts rest
                       (director_names', rows_processed + 1, names_found')))"

definition scan_names ::
  "string list \<Rightarrow> row list \<Rightarrow> (string \<times> string) list \<times> nat \<times> nat" where
  \<comment> \<open>the scan from its initial state; \<open>set(director_nconsts)\<close> is \<open>remdups\<close>\<close>
  "scan_names director_nconsts extract_b =
     names_loop (remdups director_nconsts) extract_b ([], 0, 0)"

definition extract_director_names :: "string list \<Rightarrow> row list \<Rightarrow> (string \<times> string) list" where
  "extract_director_names director_nconsts extract_b =
     fst (scan_names director_nconsts extract_b)"

definition rows_scanned :: "string list \<Rightarrow> row list \<Rightarrow> nat" where
  \<comment> \<open>\<open>rows_processed\<close> when the scan ends: the number of records read\<close>
  "rows_scanned director_nconsts extract_b =
     fst (snd (scan_names director_nconsts extract_b))"

subsection \<open>Loader\<close>

definition batch_size :: nat where
  "batch_size = 50000"

definition executemany_directors ::
  "(string \<times> string) list \<Rightarrow> 'm store \<Rightarrow> (error + unit) \<times> 'm store" where
  \<comment> \<open>\<open>executemany\<close> and \<open>commit\<close>; the rows of a failed batch are not committed\<close>
  "executemany_directors batch s =
     (case directors s of
        None \<Rightarrow> (Inl (OperationalError ''no such table: directors''), s)
      | Some tbl \<Rightarrow>
          (case insert_rows fst tbl batch of
             None \<Rightarrow> (Inl (IntegrityError ''UNIQUE constraint failed: directors.nconst''), s)
           | Some tbl' \<Rightarrow> (Inr (), s\<lparr>directors := Some tbl'\<rparr>)))"

fun insert_directors_loop ::
  "(string \<times> string) list \<Rightarrow> (string \<times> string) list \<Rightarrow> 'm store \<Rightarrow>
   (error + (string \<times> string) list) \<times> 'm store" where
  "insert_directors_loop [] batch s = (Inr batch, s)"
| "insert_directors_loop ((nconst, name) # items) batch s =
     (let batch = batch @ [(nconst, name)] in
      if length batch \<ge> batch_size
      then (case executemany_directors batch s of
              (Inl e, s') \<Rightarrow> (Inl e, s')
            | (Inr _, s') \<Rightarrow> insert_directors_loop items [] s')
      else insert_directors_loop items batch s)"

definition insert_directors ::
  "(string \<times> string) list \<Rightarrow> 'm store \<Rightarrow> (error + unit) \<times> 'm store" where
  "insert_directors director_names s =
     (case insert_directors_loop director_names [] s of
        (Inl e, s') \<Rightarrow> (Inl e, s')
      | (Inr batch, s') \<Rightarrow>
          if batch \<noteq> [] then executemany_directors batch s' else (Inr (), s'))"

definition executemany_movie_directors ::
  "(string \<times> string) list \<Rightarrow> 'm store \<Rightarrow> (error + unit) \<times> 'm store" where
  "executemany_movie_directors batch s =
     (case movie_directors s of
        None \<Rightarrow> (Inl (OperationalError ''no such table: movie_directors''), s)
      | Some tbl \<Rightarrow>
          (case insert_rows id tbl batch of
             None \<Rightarrow>
               (Inl (IntegrityError
                  ''UNIQUE constraint failed: movie_directors.tconst, movie_directors.nconst''), s)
           | Some tbl' \<Rightarrow> (Inr (), s\<lparr>movie_directors := Some tbl'\<rparr>)))"

fun insert_tconsts_loop ::
  "string \<Rightarrow> string list \<Rightarrow> (string \<times> string) list \<Rightarrow> 'm store \<Rightarrow>
   (error + (string \<times> string) list) \<times> 'm store" where
  \<comment> \<open>the inner loop, over the movies of one director\<close>
  "insert_tconsts_loop nconst [] batch s = (Inr batch, s)"
| "insert_tconsts_loop nconst (tconst # tconsts) batch s =
     (let batch = batch @ [(tconst, nconst)] in
      if length batch \<ge> batch_size
      then (case executemany_movie_directors batch s of
              (Inl e, s') \<Rightarrow> (Inl e, s')
            | (Inr _, s') \<Rightarrow> insert_tconsts_loop nconst tconsts [] s')
      else insert_tconsts_loop nconst tconsts batch s)"

fun insert_movie_directors_loop ::
  "(string list \<Rightarrow> string list) \<Rightarrow> (string \<times> string list) list \<Rightarrow>
   (string \<times> string) list \<Rightarrow> 'm store \<Rightarrow> (error + (string \<times> string) list) \<times> 'm store" where
  \<comment> \<open>the outer loop, over the items of the dict; \<open>ord\<close> orders each set\<close>
  "insert_movie_directors_loop ord [] batch s = (Inr batch, s)"
| "insert_movie_directors_loop ord ((nconst, tconsts) # items) batch s =
     (case insert_tconsts_loop nconst (ord tconsts) batch s of
        (Inl e, s') \<Rightarrow> (Inl e, s')
      | (Inr batch', s') \<Rightarrow> insert_movie_directors_loop ord items batch' s')"

definition insert_movie_directors ::
  "(string list \<Rightarrow> string list) \<Rightarrow> (string \<times> string list) list \<Rightarrow> 'm store \<Rightarrow>
   (error + unit) \<times> 'm store" where
  "insert_movie_directors ord director_movies s =
     (case insert_movie_directors_loop ord director_movies [] s of
        (Inl e, s') \<Rightarrow> (Inl e, s')
      | (Inr batch, s') \<Rightarrow>
          if batch \<noteq> [] then executemany_movie_directors batch s' else (Inr (), s'))"

subsection \<open>Index builder\<close>

definition create_fts_index :: "'m store \<Rightarrow> (error + unit) \<times> 'm store" where
  \<comment> \<open>\<open>SELECT rowid, name FROM directors\<close>: the table has a text key, so sqlite gives
      its rows the rowids 1, 2, ... in the order of insertion. That is the position of the
      row as long as no row was ever deleted, which holds of the table that \<open>build\<close>
      creates and fills in the same run, the only use of this step\<close>
  "create_fts_index s =
     (case directors_fts s of
        Some _ \<Rightarrow> (Inl (OperationalError ''table directors_fts already exists''), s)
      | None \<Rightarrow>
          (let s1 = s\<lparr>directors_fts := Some []\<rparr> in
           case directors s1 of
             None \<Rightarrow> (Inl (OperationalError ''no such table: directors''), s1)
           | Some tbl \<Rightarrow>
               (Inr (), s1\<lparr>directors_fts := Some (zip [1 ..< Suc (length tbl)] (map snd tbl))\<rparr>)))"

definition create_index :: "string \<Rightarrow> 'm store \<Rightarrow> (error + unit) \<times> 'm store" where
  "create_index name s =
     (case movie_directors s of
        None \<Rightarrow> (Inl (OperationalError ''no such table: main.movie_directors''), s)
      | Some _ \<Rightarrow>
          if name \<in> set (link_indexes s)
          then (Inl (OperationalError (''index '' @ name @ '' already exists'')), s)
          else (Inr (), s\<lparr>link_indexes := link_indexes s @ [name]\<rparr>))"

definition create_indexes :: "'m store \<Rightarrow> (error + unit) \<times> 'm store" where
  "create_indexes s =
     (case create_index ''idx_movie_directors_tconst'' s of
        (Inl e, s') \<Rightarrow> (Inl e, s')
      | (Inr _, s') \<Rightarrow> create_index ''idx_movie_directors_nconst'' s')"

subsection \<open>The build\<close>

text \<open>
  \<open>build\<close> runs the stages in the order of the source. An exception in a stage ends the
  run (the handler prints it and exits), so an error is returned
  with the store as it then is. \<open>connect\<close>, \<open>VACUUM\<close>, \<open>print_stats\<close>, \<open>disconnect\<close>
  and the compression to a separate \<open>.gz\<close> file change no row of any table, and
  \<open>print_stats\<close> reads only the two derived tables, which exist once the indexes are
  built: these five steps are left out.
\<close>

definition build ::
  "(string list \<Rightarrow> string list) \<Rightarrow> row list \<Rightarrow> row list \<Rightarrow> 'm store \<Rightarrow>
   (error + unit) \<times> 'm store" where
  "build ord extract_a extract_b s0 =
     (let s1 = drop_existing_tables s0 in
      case create_tables s1 of
        (Inl e, s2) \<Rightarrow> (Inl e, s2)
      | (Inr _, s2) \<Rightarrow>
      (case get_existing_movie_ids s2 of
        Inl e \<Rightarrow> (Inl e, s2)
      | Inr existing_movies \<Rightarrow>
      (let director_movies = extract_director_relationships existing_movies extract_a;
           director_names = extract_director_names (map fst director_movies) extract_b;
           director_movies' =
             filter (\<lambda>(nconst, movies). map_of director_names nconst \<noteq> None) director_movies
       in
       case insert_directors director_names s2 of
         (Inl e, s3) \<Rightarrow> (Inl e, s3)
       | (Inr _, s3) \<Rightarrow>
       (case insert_movie_directors ord director_movies' s3 of
         (Inl e, s4) \<Rightarrow> (Inl e, s4)
       | (Inr _, s4) \<Rightarrow>
       (case create_fts_index s4 of
         (Inl e, s5) \<Rightarrow> (Inl e, s5)
       | (Inr _, s5) \<Rightarrow> create_indexes s5)))))"

subsection \<open>Notions used in the statements and proofs\<close>

text \<open>The multimap read as a function from director keys to sets of movie keys.\<close>

definition movies_of :: "(string \<times> string list) list \<Rightarrow> string \<Rightarrow> string set" where
  "movies_of director_movies nconst =
     (case map_of director_movies nconst of None \<Rightarrow> {} | Some tconsts \<Rightarrow> set tconsts)"

definition is_director_record :: "string list \<Rightarrow> row \<Rightarrow> bool" where
  \<comment> \<open>the test of the extractor in the words of the specification: the role is the
      target role, both key fields are non-empty, the movie key is in the loaded set\<close>
  "is_director_record existing_movies row \<longleftrightarrow>
     row ''category'' = Some ''director'' \<and>
     (case row ''tconst'' of
        None \<Rightarrow> False
      | Some tconst \<Rightarrow> tconst \<noteq> [] \<and> tconst \<in> set existing_movies) \<and>
     (case row ''nconst'' of None \<Rightarrow> False | Some nconst \<Rightarrow> nconst \<noteq> [])"

text \<open>What a matching record does to the multimap.\<close>

definition add_link :: "string \<Rightarrow> string \<Rightarrow> (string \<times> string list) list \<Rightarrow> (string \<times> string list) list" where
  "add_link nconst tconst dm =
     AList.map_entry nconst (set_add tconst)
       (if map_of dm nconst = None then AList.update nconst [] dm else dm)"

text \<open>The invariant of the multimap: a dict whose values are non-empty sets of loaded keys.\<close>

definition multimap_ok :: "string list \<Rightarrow> (string \<times> string list) list \<Rightarrow> bool" where
  "multimap_ok existing_movies dm \<longleftrightarrow>
     distinct (map fst dm) \<and>
     (\<forall>(nconst, tconsts) \<in> set dm.
        tconsts \<noteq> [] \<and> distinct tconsts \<and> set tconsts \<subseteq> set existing_movies)"

definition needed_row :: "string list \<Rightarrow> row \<Rightarrow> bool" where
  "needed_row needed row \<longleftrightarrow>
     (case row ''nconst'' of None \<Rightarrow> False | Some nconst \<Rightarrow> nconst \<in> set needed)"

definition valid_name :: "row \<Rightarrow> bool" where
  \<comment> \<open>the name field is present and is not the null sentinel\<close>
  "valid_name row \<longleftrightarrow>
     (case row ''primaryName'' of
        None \<Rightarrow> False
      | Some name \<Rightarrow> name \<noteq> [] \<and> name \<noteq> null_sentinel)"

text \<open>
  The mapping that a scan without early exit accumulates: each record of a needed key
  whose name is valid stores key \<open>\<mapsto>\<close> name.
\<close>

definition resolve_step ::
  "string list \<Rightarrow> (string \<times> string) list \<Rightarrow> row \<Rightarrow> (string \<times> string) list" where
  "resolve_step needed names row =
     (case row ''nconst'' of
        None \<Rightarrow> names
      | Some nconst \<Rightarrow>
          if nconst \<in> set needed
          then (case row ''primaryName'' of
                  None \<Rightarrow> names
                | Some name \<Rightarrow>
                    if name \<noteq> [] \<and> name \<noteq> null_sentinel
                    then AList.update nconst name names
                    else names)
          else names)"

definition resolve_all :: "string list \<Rightarrow> row list \<Rightarrow> (string \<times> string) list" where
  "resolve_all needed extract_b = foldl (resolve_step needed) [] extract_b"

text \<open>The rows that the two nested loops of \<open>insert_movie_directors\<close> append, in order.\<close>

definition link_rows ::
  "(string list \<Rightarrow> string list) \<Rightarrow> (string \<times> string list) list \<Rightarrow> (string \<times> string) list" where
  "link_rows ord director_movies =
     concat (map (\<lambda>(nconst, tconsts). map (\<lambda>tconst. (tconst, nconst)) (ord tconsts)) director_movies)"

text \<open>The two values that \<open>build\<close> hands to the loader.\<close>

definition resolved_names :: "string list \<Rightarrow> row list \<Rightarrow> row list \<Rightarrow> (string \<times> string) list" where
  "resolved_names existing_movies extract_a extract_b =
     extract_director_names
       (map fst (extract_director_relationships existing_movies extract_a)) extract_b"

definition filtered_movies ::
  "string list \<Rightarrow> row list \<Rightarrow> row list \<Rightarrow> (string \<times> string list) list" where
  "filtered_movies existing_movies extract_a extract_b =
     filter (\<lambda>(nconst, movies).
               map_of (resolved_names existing_movies extract_a extract_b) nconst \<noteq> None)
       (extract_director_relationships existing_movies extract_a)"

subsection \<open>The worked example of the specification\<close>

definition principal :: "string \<Rightarrow> string \<Rightarrow> string \<Rightarrow> row" where
  "principal tconst nconst category =
     [''tconst'' \<mapsto> tconst, ''nconst'' \<mapsto> nconst, ''category'' \<mapsto> category]"

definition name_record :: "string \<Rightarrow> string \<Rightarrow> row" where
  "name_record nconst name = [''nconst'' \<mapsto> nconst, ''primaryName'' \<mapsto> name]"

definition example_a :: "row list" where
  "example_a =
     [principal ''t1'' ''n1'' ''director'', principal ''t1'' ''n1'' ''actor'',
      principal ''t2'' ''n2'' ''director'']"

definition example_b :: "row list" where
  "example_b = [name_record ''n1'' ''Alice'', name_record ''n2'' null_sentinel]"

definition example_store :: "unit store" where
  "example_store =
     \<lparr>movies = Some [(''t1'', ()), (''t2'', ())], directors = None, movie_directors = None,
      directors_fts = None, link_indexes = []\<rparr>"

definition example_result :: "unit store" where
  "example_result =
     \<lparr>movies = Some [(''t1'', ()), (''t2'', ())],
      directors = Some [(''n1'', ''Alice'')],
      movie_directors = Some [(''t1'', ''n1'')],
      directors_fts = Some [(1, ''Alice'')],
      link_indexes = [''idx_movie_directors_tconst'', ''idx_movie_directors_nconst'']\<rparr>"

definition example_a_repeated :: "row list" where
  "example_a_repeated = example_a @ [principal ''t1'' ''n1'' ''director'']"

definition example_b_repeated :: "row list" where
  "example_b_repeated =
     [name_record ''n1'' ''Alice'', name_record ''n1'' ''Alice'', name_record ''n2'' ''Bob'']"

section \<open>Properties of the relationship extractor\<close>

lemma set_add_set [simp]: "set (set_add x s) = insert x (set s)"
  by (auto simp: set_add_def)

lemma set_add_distinct [simp]: "distinct (set_add x s) = distinct s"
  by (auto simp: set_add_def)

lemma set_add_nonempty [simp]: "set_add x s \<noteq> []"
  by (auto simp: set_add_def)

lemma step_eq:
  "relationship_step ex dm row =
     (if is_director_record ex row
      then add_link (the (row ''nconst'')) (the (row ''tconst'')) dm else dm)"
  unfolding relationship_step_def is_director_record_def add_link_def
  by (cases "row ''tconst''"; cases "row ''nconst''") (simp_all add: Let_def)

lemma add_link_map_of:
  "map_of (add_link n t dm) =
     (map_of dm)(n \<mapsto> set_add t (case map_of dm n of None \<Rightarrow> [] | Some ts \<Rightarrow> ts))"
  unfolding add_link_def
  by (cases "map_of dm n") (simp_all add: map_of_map_entry update_conv' fun_eq_iff)

lemma add_link_distinct:
  "distinct (map fst dm) \<Longrightarrow> distinct (map fst (add_link n t dm))"
  unfolding add_link_def
  by (simp add: distinct_map_entry distinct_update)

lemma add_link_ok:
  assumes "multimap_ok ex dm" and "t \<in> set ex"
  shows "multimap_ok ex (add_link n t dm)"
proof -
  have d: "distinct (map fst dm)" using assms(1) by (simp add: multimap_ok_def)
  have d': "distinct (map fst (add_link n t dm))" using d by (rule add_link_distinct)
  have old: "ts \<noteq> [] \<and> distinct ts \<and> set ts \<subseteq> set ex" if "map_of dm k = Some ts" for k ts
    using assms(1) map_of_SomeD[OF that] by (auto simp: multimap_ok_def)
  have "ts \<noteq> [] \<and> distinct ts \<and> set ts \<subseteq> set ex" if "(k, ts) \<in> set (add_link n t dm)" for k ts
  proof -
    from that d' have m: "map_of (add_link n t dm) k = Some ts" by simp
    show ?thesis
    proof (cases "k = n")
      case False
      with m have "map_of dm k = Some ts" by (simp add: add_link_map_of)
      then show ?thesis by (rule old)
    next
      case True
      with m have ts: "ts = set_add t (case map_of dm n of None \<Rightarrow> [] | Some ts \<Rightarrow> ts)"
        by (simp add: add_link_map_of)
      show ?thesis
      proof (cases "map_of dm n")
        case None
        with ts assms(2) show ?thesis by simp
      next
        case (Some us)
        with ts assms(2) old[OF Some] show ?thesis by simp
      qed
    qed
  qed
  with d' show ?thesis unfolding multimap_ok_def by blast
qed

lemma step_ok:
  "multimap_ok ex dm \<Longrightarrow> multimap_ok ex (relationship_step ex dm row)"
  by (auto simp: step_eq is_director_record_def intro: add_link_ok split: option.splits)

lemma foldl_step_ok:
  "multimap_ok ex dm \<Longrightarrow> multimap_ok ex (foldl (relationship_step ex) dm rows)"
  by (induction rows arbitrary: dm) (simp_all add: step_ok)

lemma extract_ok: "multimap_ok ex (extract_director_relationships ex rows)"
  unfolding extract_director_relationships_def
  by (rule foldl_step_ok) (simp add: multimap_ok_def)

lemma add_link_movies_of:
  "movies_of (add_link n t dm) k = (if k = n then insert t (movies_of dm k) else movies_of dm k)"
  by (cases "map_of dm n") (simp_all add: movies_of_def add_link_map_of)

section \<open>Properties of the name resolver\<close>

lemma resolve_step_eq:
  "resolve_step needed names row =
     (if needed_row needed row \<and> valid_name row
      then AList.update (the (row ''nconst'')) (the (row ''primaryName'')) names
      else names)"
  by (cases "row ''nconst''"; cases "row ''primaryName''")
     (simp_all add: resolve_step_def needed_row_def valid_name_def)

lemma names_loop_Cons:
  "names_loop needed (row # rest) (names, rp, nf) =
     (let names' = resolve_step needed names row;
          nf' = (if needed_row needed row \<and> valid_name row then nf + 1 else nf)
      in if needed_row needed row \<and> nf' = length needed
         then (names', rp + 1, nf')
         else names_loop needed rest (names', rp + 1, nf'))"
proof (cases "row ''nconst''")
  case None
  then show ?thesis by (simp add: needed_row_def resolve_step_eq)
next
  case (Some n)
  show ?thesis
  proof (cases "n \<in> set needed")
    case False
    with Some show ?thesis by (simp add: needed_row_def resolve_step_eq)
  next
    case True
    with Some have nr: "needed_row needed row" by (simp add: needed_row_def)
    show ?thesis
    proof (cases "row ''primaryName''")
      case None
      with Some True nr show ?thesis by (simp add: valid_name_def resolve_step_eq)
    next
      case (Some name)
      with \<open>row ''nconst'' = Some n\<close> True nr show ?thesis
        by (simp add: valid_name_def resolve_step_eq)
    qed
  qed
qed

lemma names_loop_prefix:
  "names_loop needed rows (names, rp, nf) = (names', rp', nf') \<Longrightarrow>
     rp \<le> rp' \<and> rp' \<le> rp + length rows \<and>
     names' = foldl (resolve_step needed) names (take (rp' - rp) rows)"
proof (induction rows arbitrary: names rp nf)
  case Nil
  then show ?case by simp
next
  case (Cons row rest)
  let ?names1 = "resolve_step needed names row"
  let ?nf1 = "if needed_row needed row \<and> valid_name row then nf + 1 else nf"
  show ?case
  proof (cases "needed_row needed row \<and> ?nf1 = length needed")
    case True
    with Cons.prems have "names' = ?names1" "rp' = rp + 1"
      by (auto simp del: names_loop.simps simp add: names_loop_Cons Let_def split: if_splits)
    then show ?thesis by simp
  next
    case False
    with Cons.prems have "names_loop needed rest (?names1, rp + 1, ?nf1) = (names', rp', nf')"
      by (auto simp del: names_loop.simps simp add: names_loop_Cons Let_def split: if_splits)
    from Cons.IH[OF this]
    have a: "rp + 1 \<le> rp'" and b: "rp' \<le> rp + 1 + length rest"
      and c: "names' = foldl (resolve_step needed) ?names1 (take (rp' - (rp + 1)) rest)"
      by simp_all
    from a obtain d where d: "rp' - rp = Suc d" "rp' - (rp + 1) = d"
      by (cases "rp' - rp") auto
    with a b c show ?thesis by simp
  qed
qed

lemma resolve_step_keys:
  "distinct (map fst names) \<Longrightarrow> fst ` set names \<subseteq> set needed \<Longrightarrow>
   distinct (map fst (resolve_step needed names row))
     \<and> fst ` set (resolve_step needed names row) \<subseteq> set needed"
  by (auto simp: resolve_step_eq distinct_update dom_update needed_row_def
           split: option.splits)

lemma foldl_resolve_keys:
  "distinct (map fst names) \<Longrightarrow> fst ` set names \<subseteq> set needed \<Longrightarrow>
   distinct (map fst (foldl (resolve_step needed) names rows))
     \<and> fst ` set (foldl (resolve_step needed) names rows) \<subseteq> set needed"
proof (induction rows arbitrary: names)
  case Nil
  then show ?case by simp
next
  case (Cons row rows)
  from resolve_step_keys[OF Cons.prems, of row] Cons.IH[of "resolve_step needed names row"]
  show ?case by simp
qed

lemma scan_names_prefix:
  "fst (scan_names nconsts extract_b)
     = foldl (resolve_step (remdups nconsts)) []
         (take (fst (snd (scan_names nconsts extract_b))) extract_b)"
proof -
  obtain names rp nf where r: "scan_names nconsts extract_b = (names, rp, nf)"
    by (cases "scan_names nconsts extract_b") auto
  then have "names_loop (remdups nconsts) extract_b ([], 0, 0) = (names, rp, nf)"
    by (simp add: scan_names_def)
  from names_loop_prefix[OF this] r show ?thesis by simp
qed

lemma extract_director_names_keys:
  "distinct (map fst (extract_director_names nconsts extract_b))
     \<and> fst ` set (extract_director_names nconsts extract_b) \<subseteq> set nconsts"
proof -
  have "extract_director_names nconsts extract_b
          = foldl (resolve_step (remdups nconsts)) [] (take (rows_scanned nconsts extract_b) extract_b)"
    unfolding extract_director_names_def rows_scanned_def by (rule scan_names_prefix)
  moreover have "distinct (map fst ([] :: (string \<times> string) list))"
    and "fst ` set ([] :: (string \<times> string) list) \<subseteq> set (remdups nconsts)" by simp_all
  ultimately show ?thesis
    using foldl_resolve_keys[of "[]" "remdups nconsts"] by simp
qed

section \<open>Properties of the loader\<close>

lemma insert_rows_distinct:
  "distinct (map key (tbl @ rs)) \<Longrightarrow> insert_rows key tbl rs = Some (tbl @ rs)"
proof (induction rs arbitrary: tbl)
  case Nil
  then show ?case by simp
next
  case (Cons r rs)
  from Cons.prems have "key r \<notin> key ` set tbl" by auto
  moreover from Cons.prems have "distinct (map key ((tbl @ [r]) @ rs))" by simp
  ultimately show ?case using Cons.IH[of "tbl @ [r]"] by simp
qed

lemma executemany_directors_ok:
  assumes "directors s = Some tbl" and "distinct (map fst (tbl @ batch))"
  shows "executemany_directors batch s = (Inr (), s\<lparr>directors := Some (tbl @ batch)\<rparr>)"
  using assms by (simp add: executemany_directors_def insert_rows_distinct)

lemma insert_directors_loop_ok:
  assumes "directors s = Some tbl" and "distinct (map fst (tbl @ batch @ items))"
  shows "\<exists>tbl' batch'. insert_directors_loop items batch s = (Inr batch', s\<lparr>directors := Some tbl'\<rparr>)
           \<and> tbl' @ batch' = tbl @ batch @ items"
  using assms
proof (induction items arbitrary: batch s tbl)
  case Nil
  have "s\<lparr>directors := Some tbl\<rparr> = s" using Nil.prems(1) by simp
  then show ?case by (intro exI[of _ tbl] exI[of _ batch]) simp
next
  case (Cons item items)
  obtain nconst name where item: "item = (nconst, name)" by (cases item)
  let ?b = "batch @ [(nconst, name)]"
  show ?case
  proof (cases "length ?b \<ge> batch_size")
    case True
    have d: "distinct (map fst (tbl @ ?b))" using Cons.prems(2) item by auto
    let ?s' = "s\<lparr>directors := Some (tbl @ ?b)\<rparr>"
    have ex: "executemany_directors ?b s = (Inr (), ?s')"
      by (rule executemany_directors_ok[OF Cons.prems(1) d])
    have "directors ?s' = Some (tbl @ ?b)" by simp
    moreover have "distinct (map fst ((tbl @ ?b) @ [] @ items))" using Cons.prems(2) item by auto
    ultimately obtain tbl' batch' where
      r: "insert_directors_loop items [] ?s' = (Inr batch', ?s'\<lparr>directors := Some tbl'\<rparr>)"
      and e: "tbl' @ batch' = (tbl @ ?b) @ [] @ items"
      using Cons.IH[of ?s' "tbl @ ?b" "[]"] by blast
    have "insert_directors_loop (item # items) batch s = (Inr batch', s\<lparr>directors := Some tbl'\<rparr>)"
      using True ex r by (simp add: item)
    with e item show ?thesis by auto
  next
    case False
    have "distinct (map fst (tbl @ ?b @ items))" using Cons.prems(2) item by auto
    then obtain tbl' batch' where
      r: "insert_directors_loop items ?b s = (Inr batch', s\<lparr>directors := Some tbl'\<rparr>)"
      and e: "tbl' @ batch' = tbl @ ?b @ items"
      using Cons.IH[OF Cons.prems(1), of ?b] by blast
    have "insert_directors_loop (item # items) batch s = (Inr batch', s\<lparr>directors := Some tbl'\<rparr>)"
      using False r by (simp add: item)
    with e item show ?thesis by auto
  qed
qed

lemma insert_directors_ok:
  assumes "directors s = Some tbl" and "distinct (map fst (tbl @ names))"
  shows "insert_directors names s = (Inr (), s\<lparr>directors := Some (tbl @ names)\<rparr>)"
proof -
  from insert_directors_loop_ok[OF assms(1), of "[]" names] assms(2)
  obtain tbl' batch' where
    r: "insert_directors_loop names [] s = (Inr batch', s\<lparr>directors := Some tbl'\<rparr>)"
    and e: "tbl' @ batch' = tbl @ names" by auto
  show ?thesis
  proof (cases "batch' = []")
    case True
    with r e show ?thesis by (simp add: insert_directors_def)
  next
    case False
    have "distinct (map fst (tbl' @ batch'))" using assms(2) e by simp
    then have "executemany_directors batch' (s\<lparr>directors := Some tbl'\<rparr>)
                 = (Inr (), s\<lparr>directors := Some tbl'\<rparr>\<lparr>directors := Some (tbl' @ batch')\<rparr>)"
      by (intro executemany_directors_ok) simp_all
    with r e False show ?thesis by (simp add: insert_directors_def)
  qed
qed

lemma executemany_movie_directors_ok:
  assumes "movie_directors s = Some tbl" and "distinct (tbl @ batch)"
  shows "executemany_movie_directors batch s = (Inr (), s\<lparr>movie_directors := Some (tbl @ batch)\<rparr>)"
proof -
  have "distinct (map id (tbl @ batch))" using assms(2) by simp
  then have "insert_rows id tbl batch = Some (tbl @ batch)" by (rule insert_rows_distinct)
  with assms(1) show ?thesis by (simp add: executemany_movie_directors_def)
qed

lemma insert_tconsts_loop_ok:
  assumes "movie_directors s = Some tbl"
    and "distinct (tbl @ batch @ map (\<lambda>t. (t, nconst)) tconsts)"
  shows "\<exists>tbl' batch'.
           insert_tconsts_loop nconst tconsts batch s
             = (Inr batch', s\<lparr>movie_directors := Some tbl'\<rparr>)
           \<and> tbl' @ batch' = tbl @ batch @ map (\<lambda>t. (t, nconst)) tconsts"
  using assms
proof (induction tconsts arbitrary: batch s tbl)
  case Nil
  have "s\<lparr>movie_directors := Some tbl\<rparr> = s" using Nil.prems(1) by simp
  then show ?case by (intro exI[of _ tbl] exI[of _ batch]) simp
next
  case (Cons tconst tconsts)
  let ?b = "batch @ [(tconst, nconst)]"
  let ?rest = "map (\<lambda>t. (t, nconst)) tconsts"
  show ?case
  proof (cases "length ?b \<ge> batch_size")
    case True
    have d: "distinct (tbl @ ?b)" using Cons.prems(2) by auto
    let ?s' = "s\<lparr>movie_directors := Some (tbl @ ?b)\<rparr>"
    have ex: "executemany_movie_directors ?b s = (Inr (), ?s')"
      by (rule executemany_movie_directors_ok[OF Cons.prems(1) d])
    have "movie_directors ?s' = Some (tbl @ ?b)" by simp
    moreover have "distinct ((tbl @ ?b) @ [] @ ?rest)" using Cons.prems(2) by auto
    ultimately obtain tbl' batch' where
      r: "insert_tconsts_loop nconst tconsts [] ?s'
            = (Inr batch', ?s'\<lparr>movie_directors := Some tbl'\<rparr>)"
      and e: "tbl' @ batch' = (tbl @ ?b) @ [] @ ?rest"
      using Cons.IH[of ?s' "tbl @ ?b" "[]"] by blast
    have "insert_tconsts_loop nconst (tconst # tconsts) batch s
            = (Inr batch', s\<lparr>movie_directors := Some tbl'\<rparr>)"
      using True ex r by simp
    with e show ?thesis by auto
  next
    case False
    have "distinct (tbl @ ?b @ ?rest)" using Cons.prems(2) by auto
    then obtain tbl' batch' where
      r: "insert_tconsts_loop nconst tconsts ?b s
            = (Inr batch', s\<lparr>movie_directors := Some tbl'\<rparr>)"
      and e: "tbl' @ batch' = tbl @ ?b @ ?rest"
      using Cons.IH[OF Cons.prems(1), of ?b] by blast
    have "insert_tconsts_loop nconst (tconst # tconsts) batch s
            = (Inr batch', s\<lparr>movie_directors := Some tbl'\<rparr>)"
      using False r by simp
    with e show ?thesis by auto
  qed
qed

lemma link_rows_Cons:
  "link_rows ord ((nconst, tconsts) # items)
     = map (\<lambda>t. (t, nconst)) (ord tconsts) @ link_rows ord items"
  by (simp add: link_rows_def)

lemma insert_movie_directors_loop_ok:
  assumes "movie_directors s = Some tbl"
    and "distinct (tbl @ batch @ link_rows ord items)"
  shows "\<exists>tbl' batch'.
           insert_movie_directors_loop ord items batch s
             = (Inr batch', s\<lparr>movie_directors := Some tbl'\<rparr>)
           \<and> tbl' @ batch' = tbl @ batch @ link_rows ord items"
  using assms
proof (induction items arbitrary: batch s tbl)
  case Nil
  have "s\<lparr>movie_directors := Some tbl\<rparr> = s" using Nil.prems(1) by simp
  then show ?case by (intro exI[of _ tbl] exI[of _ batch]) (simp add: link_rows_def)
next
  case (Cons item items)
  obtain nconst tconsts where item: "item = (nconst, tconsts)" by (cases item)
  let ?inner = "map (\<lambda>t. (t, nconst)) (ord tconsts)"
  have all: "distinct (tbl @ batch @ ?inner @ link_rows ord items)"
    using Cons.prems(2) by (simp add: item link_rows_Cons)
  then have "distinct (tbl @ batch @ ?inner)" by auto
  from insert_tconsts_loop_ok[OF Cons.prems(1) this]
  obtain tbl1 batch1 where
    r1: "insert_tconsts_loop nconst (ord tconsts) batch s
           = (Inr batch1, s\<lparr>movie_directors := Some tbl1\<rparr>)"
    and e1: "tbl1 @ batch1 = tbl @ batch @ ?inner" by blast
  let ?s1 = "s\<lparr>movie_directors := Some tbl1\<rparr>"
  have eq1: "tbl1 @ batch1 @ link_rows ord items = tbl @ batch @ ?inner @ link_rows ord items"
    using e1 by (metis append_assoc)
  have d1: "distinct (tbl1 @ batch1 @ link_rows ord items)"
    unfolding eq1 by (rule all)
  have "movie_directors ?s1 = Some tbl1" by simp
  from Cons.IH[OF this d1]
  obtain tbl' batch' where
    r: "insert_movie_directors_loop ord items batch1 ?s1
          = (Inr batch', ?s1\<lparr>movie_directors := Some tbl'\<rparr>)"
    and e: "tbl' @ batch' = tbl1 @ batch1 @ link_rows ord items" by blast
  have "insert_movie_directors_loop ord (item # items) batch s
          = (Inr batch', s\<lparr>movie_directors := Some tbl'\<rparr>)"
    using r1 r by (simp add: item)
  moreover have "tbl' @ batch' = tbl @ batch @ link_rows ord (item # items)"
    using e e1 by (simp add: item link_rows_Cons)
  ultimately show ?case by blast
qed

lemma insert_movie_directors_ok:
  assumes "movie_directors s = Some tbl" and "distinct (tbl @ link_rows ord dm)"
  shows "insert_movie_directors ord dm s
           = (Inr (), s\<lparr>movie_directors := Some (tbl @ link_rows ord dm)\<rparr>)"
proof -
  from insert_movie_directors_loop_ok[OF assms(1), of "[]" ord dm] assms(2)
  obtain tbl' batch' where
    r: "insert_movie_directors_loop ord dm [] s
          = (Inr batch', s\<lparr>movie_directors := Some tbl'\<rparr>)"
    and e: "tbl' @ batch' = tbl @ link_rows ord dm" by auto
  show ?thesis
  proof (cases "batch' = []")
    case True
    with r e show ?thesis by (simp add: insert_movie_directors_def)
  next
    case False
    have "distinct (tbl' @ batch')" using assms(2) e by simp
    then have "executemany_movie_directors batch' (s\<lparr>movie_directors := Some tbl'\<rparr>)
                 = (Inr (), s\<lparr>movie_directors := Some tbl'\<rparr>
                              \<lparr>movie_directors := Some (tbl' @ batch')\<rparr>)"
      by (intro executemany_movie_directors_ok) simp_all
    with r e False show ?thesis by (simp add: insert_movie_directors_def)
  qed
qed

section \<open>Properties of the build\<close>

lemma set_link_rows:
  "set (link_rows ord dm) = {(t, n). \<exists>ts. (n, ts) \<in> set dm \<and> t \<in> set (ord ts)}"
  by (induction dm) (auto simp: link_rows_def)

lemma link_rows_distinct:
  assumes "distinct (map fst dm)" and "\<forall>(n, ts) \<in> set dm. distinct ts"
    and "iteration_order ord"
  shows "distinct (link_rows ord dm)"
  using assms(1,2)
proof (induction dm)
  case Nil
  then show ?case by (simp add: link_rows_def)
next
  case (Cons item dm)
  obtain n ts where item: "item = (n, ts)" by (cases item)
  have "distinct ts" using Cons.prems(2) item by simp
  then have "distinct (ord ts)" using assms(3) by (simp add: iteration_order_def)
  then have here: "distinct (map (\<lambda>t. (t, n)) (ord ts))"
    by (simp add: distinct_map inj_on_def)
  have rest: "distinct (link_rows ord dm)" using Cons by simp
  have "n \<notin> fst ` set dm" using Cons.prems(1) item by simp
  then have "set (map (\<lambda>t. (t, n)) (ord ts)) \<inter> set (link_rows ord dm) = {}"
    by (force simp: set_link_rows)
  with here rest show ?case by (simp add: item link_rows_Cons)
qed

lemma filter_multimap_ok:
  "multimap_ok ex dm \<Longrightarrow> multimap_ok ex (filter P dm)"
  by (auto simp: multimap_ok_def distinct_map_filter)

lemma filtered_movies_ok: "multimap_ok ex (filtered_movies ex A B)"
  unfolding filtered_movies_def by (rule filter_multimap_ok) (rule extract_ok)

lemma filtered_link_rows_distinct:
  "iteration_order ord \<Longrightarrow> distinct (link_rows ord (filtered_movies ex A B))"
  using filtered_movies_ok[of ex A B]
  by (intro link_rows_distinct) (auto simp: multimap_ok_def)

lemma resolved_names_distinct: "distinct (map fst (resolved_names ex A B))"
  unfolding resolved_names_def using extract_director_names_keys by blast

lemma build_stages:
  "build ord A B s =
     (case create_tables (drop_existing_tables s) of
        (Inl e, s2) \<Rightarrow> (Inl e, s2)
      | (Inr _, s2) \<Rightarrow>
      (case get_existing_movie_ids s2 of
        Inl e \<Rightarrow> (Inl e, s2)
      | Inr ex \<Rightarrow>
       (case insert_directors (resolved_names ex A B) s2 of
         (Inl e, s3) \<Rightarrow> (Inl e, s3)
       | (Inr _, s3) \<Rightarrow>
       (case insert_movie_directors ord (filtered_movies ex A B) s3 of
         (Inl e, s4) \<Rightarrow> (Inl e, s4)
       | (Inr _, s4) \<Rightarrow>
       (case create_fts_index s4 of
         (Inl e, s5) \<Rightarrow> (Inl e, s5)
       | (Inr _, s5) \<Rightarrow> create_indexes s5)))))"
  unfolding build_def Let_def resolved_names_def filtered_movies_def by (rule refl)

lemma build_ok:
  assumes "movies s = Some ms" and "iteration_order ord"
  shows "build ord A B s =
           (Inr (),
            s\<lparr>directors_fts :=
                 Some (zip [1 ..< Suc (length (resolved_names (remdups (map fst ms)) A B))]
                         (map snd (resolved_names (remdups (map fst ms)) A B))),
              movie_directors := Some (link_rows ord (filtered_movies (remdups (map fst ms)) A B)),
              link_indexes := [''idx_movie_directors_tconst'', ''idx_movie_directors_nconst''],
              directors := Some (resolved_names (remdups (map fst ms)) A B)\<rparr>)"
proof -
  let ?ex = "remdups (map fst ms)"
  let ?names = "resolved_names ?ex A B"
  let ?dm = "filtered_movies ?ex A B"
  let ?s2 = "s\<lparr>directors_fts := None, movie_directors := Some [], link_indexes := [],
               directors := Some []\<rparr>"
  have c: "create_tables (drop_existing_tables s) = (Inr (), ?s2)"
    by (simp add: create_tables_def drop_existing_tables_def)
  have g: "get_existing_movie_ids ?s2 = Inr ?ex"
    using assms(1) by (simp add: get_existing_movie_ids_def)
  let ?s3 = "?s2\<lparr>directors := Some ([] @ ?names)\<rparr>"
  have i1: "insert_directors ?names ?s2 = (Inr (), ?s3)"
    by (rule insert_directors_ok) (simp_all add: resolved_names_distinct)
  let ?s4 = "?s3\<lparr>movie_directors := Some ([] @ link_rows ord ?dm)\<rparr>"
  have i2: "insert_movie_directors ord ?dm ?s3 = (Inr (), ?s4)"
    by (rule insert_movie_directors_ok)
       (simp_all add: filtered_link_rows_distinct[OF assms(2)])
  let ?s5 = "?s4\<lparr>directors_fts := Some (zip [1 ..< Suc (length ?names)] (map snd ?names))\<rparr>"
  have f: "create_fts_index ?s4 = (Inr (), ?s5)"
    by (simp add: create_fts_index_def)
  have x: "create_indexes ?s5 =
             (Inr (), ?s5\<lparr>link_indexes := [''idx_movie_directors_tconst'',
                                              ''idx_movie_directors_nconst'']\<rparr>)"
    by (simp add: create_indexes_def create_index_def)
  have "build ord A B s =
          (Inr (), ?s5\<lparr>link_indexes := [''idx_movie_directors_tconst'',
                                           ''idx_movie_directors_nconst'']\<rparr>)"
    using c g i1 i2 f x by (simp add: build_stages)
  then show ?thesis by simp
qed

lemma build_no_movies:
  assumes "movies s = None"
  shows "build ord A B s =
           (Inl (OperationalError ''no such table: movies''),
            s\<lparr>directors_fts := None, movie_directors := Some [], link_indexes := [],
              directors := Some []\<rparr>)"
proof -
  let ?s2 = "s\<lparr>directors_fts := None, movie_directors := Some [], link_indexes := [],
               directors := Some []\<rparr>"
  have c: "create_tables (drop_existing_tables s) = (Inr (), ?s2)"
    by (simp add: create_tables_def drop_existing_tables_def)
  have g: "get_existing_movie_ids ?s2 = Inl (OperationalError ''no such table: movies'')"
    using assms(1) by (simp add: get_existing_movie_ids_def)
  show ?thesis using c g by (simp add: build_stages)
qed

section \<open>The worked example\<close>

lemma iteration_order_id: "iteration_order (\<lambda>s. s)"
  by (simp add: iteration_order_def)

lemma iteration_order_singleton:
  assumes "iteration_order ord"
  shows "ord [x] = [x]"
proof -
  from assms have "distinct [x] \<longrightarrow> distinct (ord [x]) \<and> set (ord [x]) = set [x]"
    unfolding iteration_order_def by (rule spec)
  then have d: "distinct (ord [x])" and s: "set (ord [x]) = {x}" by simp_all
  show ?thesis
  proof (cases "ord [x]")
    case Nil
    with s show ?thesis by simp
  next
    case (Cons a as)
    from s Cons have a: "a = x" by auto
    from s Cons have "set as \<subseteq> {x}" by auto
    moreover from d a Cons have "x \<notin> set as" by simp
    ultimately have "as = []" by (cases as) auto
    with a Cons show ?thesis by simp
  qed
qed

lemma example_relationships:
  "extract_director_relationships [''t1'', ''t2''] example_a = [(''n1'', [''t1'']), (''n2'', [''t2''])]"
  by (simp add: extract_director_relationships_def example_a_def principal_def
        relationship_step_def set_add_def)

lemma example_names:
  "scan_names [''n1'', ''n2''] example_b = ([(''n1'', ''Alice'')], 2, 1)"
  by (simp add: scan_names_def example_b_def name_record_def null_sentinel_def)

lemma example_resolved:
  "resolved_names [''t1'', ''t2''] example_a example_b = [(''n1'', ''Alice'')]"
  by (simp add: resolved_names_def extract_director_names_def example_relationships example_names)

lemma example_filtered:
  "filtered_movies [''t1'', ''t2''] example_a example_b = [(''n1'', [''t1''])]"
  by (simp add: filtered_movies_def example_resolved example_relationships)

text \<open>
  Claim C1. With the movies \<open>t1\<close> and \<open>t2\<close> in the store, the three records of
  Extract A and the two records of Extract B of the worked example, the build succeeds,
  the directors table is exactly the row \<open>(n1, Alice)\<close> and the link table is exactly
  the row \<open>(t1, n1)\<close>: the actor record and the director \<open>n2\<close>, whose name is the
  null sentinel, leave no row. This holds whatever the other tables of the store held
  before and in whatever order sets are iterated.
\<close>

theorem worked_example:
  assumes "iteration_order ord" and "movies s = Some [(''t1'', m1), (''t2'', m2)]"
  shows "\<exists>s'. build ord example_a example_b s = (Inr (), s')
           \<and> directors s' = Some [(''n1'', ''Alice'')]
           \<and> movie_directors s' = Some [(''t1'', ''n1'')]"
proof -
  have "link_rows ord [(''n1'', [''t1''])] = [(''t1'', ''n1'')]"
    by (simp add: link_rows_def iteration_order_singleton[OF assms(1)])
  then show ?thesis
    using build_ok[OF assms(2) assms(1), of example_a example_b]
    by (simp add: example_resolved example_filtered)
qed

theorem worked_example_witness:
  "iteration_order (\<lambda>s::string list. s)
   \<and> movies example_store = Some [(''t1'', ()), (''t2'', ())]
   \<and> (\<exists>s'. build (\<lambda>s. s) example_a example_b example_store = (Inr (), s')
           \<and> directors s' = Some [(''n1'', ''Alice'')]
           \<and> movie_directors s' = Some [(''t1'', ''n1'')])"
  using worked_example[of "\<lambda>s. s" example_store "()" "()"]
  by (simp add: iteration_order_def example_store_def)

section \<open>The movies table is only read\<close>

lemma executemany_directors_movies:
  "executemany_directors batch s = (r, s') \<Longrightarrow> movies s' = movies s"
  by (auto simp: executemany_directors_def split: option.splits)

lemma insert_directors_loop_movies:
  "insert_directors_loop items batch s = (r, s') \<Longrightarrow> movies s' = movies s"
proof (induction items arbitrary: batch s)
  case Nil
  then show ?case by simp
next
  case (Cons item items)
  obtain nconst name where item: "item = (nconst, name)" by (cases item)
  let ?b = "batch @ [(nconst, name)]"
  show ?case
  proof (cases "length ?b \<ge> batch_size")
    case False
    with Cons.prems have "insert_directors_loop items ?b s = (r, s')" by (simp add: item)
    then show ?thesis by (rule Cons.IH)
  next
    case True
    obtain r1 s1 where e: "executemany_directors ?b s = (r1, s1)"
      by (cases "executemany_directors ?b s")
    then have m1: "movies s1 = movies s" by (rule executemany_directors_movies)
    show ?thesis
    proof (cases r1)
      case (Inl err)
      with Cons.prems True e have "s' = s1" by (simp add: item)
      with m1 show ?thesis by simp
    next
      case (Inr u)
      with Cons.prems True e have "insert_directors_loop items [] s1 = (r, s')"
        by (simp add: item)
      then have "movies s' = movies s1" by (rule Cons.IH)
      with m1 show ?thesis by simp
    qed
  qed
qed

lemma insert_directors_movies:
  assumes "insert_directors names s = (r, s')"
  shows "movies s' = movies s"
proof -
  obtain r1 s1 where l: "insert_directors_loop names [] s = (r1, s1)"
    by (cases "insert_directors_loop names [] s")
  then have m1: "movies s1 = movies s" by (rule insert_directors_loop_movies)
  show ?thesis
  proof (cases r1)
    case (Inl err)
    with assms l have "s' = s1" by (simp add: insert_directors_def)
    with m1 show ?thesis by simp
  next
    case (Inr batch)
    show ?thesis
    proof (cases "batch = []")
      case True
      with assms l Inr have "s' = s1" by (simp add: insert_directors_def)
      with m1 show ?thesis by simp
    next
      case False
      with assms l Inr have "executemany_directors batch s1 = (r, s')"
        by (simp add: insert_directors_def)
      then have "movies s' = movies s1" by (rule executemany_directors_movies)
      with m1 show ?thesis by simp
    qed
  qed
qed

lemma executemany_movie_directors_movies:
  "executemany_movie_directors batch s = (r, s') \<Longrightarrow> movies s' = movies s"
  by (auto simp: executemany_movie_directors_def split: option.splits)

lemma insert_tconsts_loop_movies:
  "insert_tconsts_loop nconst tconsts batch s = (r, s') \<Longrightarrow> movies s' = movies s"
proof (induction tconsts arbitrary: batch s)
  case Nil
  then show ?case by simp
next
  case (Cons tconst tconsts)
  let ?b = "batch @ [(tconst, nconst)]"
  show ?case
  proof (cases "length ?b \<ge> batch_size")
    case False
    with Cons.prems have "insert_tconsts_loop nconst tconsts ?b s = (r, s')" by simp
    then show ?thesis by (rule Cons.IH)
  next
    case True
    obtain r1 s1 where e: "executemany_movie_directors ?b s = (r1, s1)"
      by (cases "executemany_movie_directors ?b s")
    then have m1: "movies s1 = movies s" by (rule executemany_movie_directors_movies)
    show ?thesis
    proof (cases r1)
      case (Inl err)
      with Cons.prems True e have "s' = s1" by simp
      with m1 show ?thesis by simp
    next
      case (Inr u)
      with Cons.prems True e have "insert_tconsts_loop nconst tconsts [] s1 = (r, s')"
        by simp
      then have "movies s' = movies s1" by (rule Cons.IH)
      with m1 show ?thesis by simp
    qed
  qed
qed

lemma insert_movie_directors_loop_movies:
  "insert_movie_directors_loop ord items batch s = (r, s') \<Longrightarrow> movies s' = movies s"
proof (induction items arbitrary: batch s)
  case Nil
  then show ?case by simp
next
  case (Cons item items)
  obtain nconst tconsts where item: "item = (nconst, tconsts)" by (cases item)
  obtain r1 s1 where e: "insert_tconsts_loop nconst (ord tconsts) batch s = (r1, s1)"
    by (cases "insert_tconsts_loop nconst (ord tconsts) batch s")
  then have m1: "movies s1 = movies s" by (rule insert_tconsts_loop_movies)
  show ?case
  proof (cases r1)
    case (Inl err)
    with Cons.prems e have "s' = s1" by (simp add: item)
    with m1 show ?thesis by simp
  next
    case (Inr batch1)
    with Cons.prems e have "insert_movie_directors_loop ord items batch1 s1 = (r, s')"
      by (simp add: item)
    then have "movies s' = movies s1" by (rule Cons.IH)
    with m1 show ?thesis by simp
  qed
qed

lemma insert_movie_directors_movies:
  assumes "insert_movie_directors ord dm s = (r, s')"
  shows "movies s' = movies s"
proof -
  obtain r1 s1 where l: "insert_movie_directors_loop ord dm [] s = (r1, s1)"
    by (cases "insert_movie_directors_loop ord dm [] s")
  then have m1: "movies s1 = movies s" by (rule insert_movie_directors_loop_movies)
  show ?thesis
  proof (cases r1)
    case (Inl err)
    with assms l have "s' = s1" by (simp add: insert_movie_directors_def)
    with m1 show ?thesis by simp
  next
    case (Inr batch)
    show ?thesis
    proof (cases "batch = []")
      case True
      with assms l Inr have "s' = s1" by (simp add: insert_movie_directors_def)
      with m1 show ?thesis by simp
    next
      case False
      with assms l Inr have "executemany_movie_directors batch s1 = (r, s')"
        by (simp add: insert_movie_directors_def)
      then have "movies s' = movies s1" by (rule executemany_movie_directors_movies)
      with m1 show ?thesis by simp
    qed
  qed
qed

lemma create_tables_movies: "create_tables s = (r, s') \<Longrightarrow> movies s' = movies s"
  by (auto simp: create_tables_def Let_def split: option.splits)

lemma create_fts_index_movies: "create_fts_index s = (r, s') \<Longrightarrow> movies s' = movies s"
  by (auto simp: create_fts_index_def Let_def split: option.splits)

lemma create_index_movies: "create_index name s = (r, s') \<Longrightarrow> movies s' = movies s"
  by (auto simp: create_index_def split: option.splits if_splits)

lemma create_indexes_movies:
  assumes "create_indexes s = (r, s')"
  shows "movies s' = movies s"
proof -
  obtain r1 s1 where e: "create_index ''idx_movie_directors_tconst'' s = (r1, s1)"
    by (cases "create_index ''idx_movie_directors_tconst'' s")
  then have m1: "movies s1 = movies s" by (rule create_index_movies)
  show ?thesis
  proof (cases r1)
    case (Inl err)
    with assms e have "s' = s1" by (simp add: create_indexes_def)
    with m1 show ?thesis by simp
  next
    case (Inr u)
    with assms e have "create_index ''idx_movie_directors_nconst'' s1 = (r, s')"
      by (simp add: create_indexes_def)
    then have "movies s' = movies s1" by (rule create_index_movies)
    with m1 show ?thesis by simp
  qed
qed

lemma drop_existing_tables_movies: "movies (drop_existing_tables s) = movies s"
  by (simp add: drop_existing_tables_def)

lemma build_movies:
  assumes "build ord extract_a extract_b s = (r, s')"
  shows "movies s' = movies s"
  using assms
  by (auto simp: build_stages drop_existing_tables_movies
           split: prod.splits sum.splits
           dest!: create_tables_movies insert_directors_movies insert_movie_directors_movies
                  create_fts_index_movies create_indexes_movies)

text \<open>
  Claim C9. No stage writes to the movies table: after every run, successful or failed,
  the table \<open>movies\<close> holds exactly the rows it held before; the build only reads the
  key column through \<open>get_existing_movie_ids\<close>.
\<close>

theorem movies_table_unchanged:
  "movies (snd (build ord extract_a extract_b s)) = movies s"
proof -
  obtain r s' where b: "build ord extract_a extract_b s = (r, s')"
    by (cases "build ord extract_a extract_b s")
  from build_movies[OF b] b show ?thesis by simp
qed

section \<open>Invariants of the tables a run leaves\<close>

lemma build_links:
  assumes "iteration_order ord" and "build ord A B s = (r, s')"
    and "movie_directors s' = Some links"
  shows "links = (case movies s of None \<Rightarrow> []
                  | Some ms \<Rightarrow> link_rows ord (filtered_movies (remdups (map fst ms)) A B))"
proof (cases "movies s")
  case None
  from build_no_movies[OF None, of ord A B] assms(2,3) have "links = []" by auto
  with None show ?thesis by simp
next
  case (Some ms)
  from build_ok[OF Some assms(1), of A B] assms(2,3)
  have "links = link_rows ord (filtered_movies (remdups (map fst ms)) A B)" by auto
  with Some show ?thesis by simp
qed

lemma build_directors:
  assumes "iteration_order ord" and "build ord A B s = (r, s')"
    and "directors s' = Some rows"
  shows "rows = (case movies s of None \<Rightarrow> []
                 | Some ms \<Rightarrow> resolved_names (remdups (map fst ms)) A B)"
proof (cases "movies s")
  case None
  from build_no_movies[OF None, of ord A B] assms(2,3) have "rows = []" by auto
  with None show ?thesis by simp
next
  case (Some ms)
  from build_ok[OF Some assms(1), of A B] assms(2,3)
  have "rows = resolved_names (remdups (map fst ms)) A B" by auto
  with Some show ?thesis by simp
qed

lemma build_directors_exist:
  assumes "iteration_order ord" and "build ord A B s = (r, s')"
  shows "directors s' \<noteq> None"
proof (cases "movies s")
  case None
  from build_no_movies[OF None, of ord A B] assms(2) show ?thesis by auto
next
  case (Some ms)
  from build_ok[OF Some assms(1), of A B] assms(2) show ?thesis by auto
qed

lemma movies_of_subset:
  assumes "multimap_ok ex dm"
  shows "movies_of dm n \<subseteq> set ex"
proof (cases "map_of dm n")
  case None
  then show ?thesis by (simp add: movies_of_def)
next
  case (Some ts)
  then have "(n, ts) \<in> set dm" by (rule map_of_SomeD)
  with assms have "set ts \<subseteq> set ex" unfolding multimap_ok_def by blast
  with Some show ?thesis by (simp add: movies_of_def)
qed

lemma movies_of_nonempty:
  assumes "multimap_ok ex dm" and "n \<in> fst ` set dm"
  shows "movies_of dm n \<noteq> {}"
proof -
  from assms(2) obtain ts where m: "(n, ts) \<in> set dm" by auto
  with assms(1) have "distinct (map fst dm)" and "ts \<noteq> []"
    unfolding multimap_ok_def by blast+
  with m have "map_of dm n = Some ts" and "ts \<noteq> []" by simp_all
  then show ?thesis by (simp add: movies_of_def)
qed

lemma link_rows_filtered_mem:
  assumes "iteration_order ord"
  shows "(t, n) \<in> set (link_rows ord (filtered_movies ex A B))
           \<longleftrightarrow> t \<in> movies_of (extract_director_relationships ex A) n
                \<and> map_of (resolved_names ex A B) n \<noteq> None"
proof -
  let ?dm = "extract_director_relationships ex A"
  have ok: "multimap_ok ex ?dm" by (rule extract_ok)
  then have d: "distinct (map fst ?dm)" by (simp add: multimap_ok_def)
  have o: "set (ord ts) = set ts" if "(n, ts) \<in> set ?dm" for ts
  proof -
    from ok that have "distinct ts" unfolding multimap_ok_def by blast
    with assms show ?thesis unfolding iteration_order_def by blast
  qed
  have "(t, n) \<in> set (link_rows ord (filtered_movies ex A B))
          \<longleftrightarrow> (\<exists>ts. (n, ts) \<in> set ?dm \<and> map_of (resolved_names ex A B) n \<noteq> None
                   \<and> t \<in> set (ord ts))"
    by (auto simp: set_link_rows filtered_movies_def)
  also have "\<dots> \<longleftrightarrow> (\<exists>ts. (n, ts) \<in> set ?dm \<and> map_of (resolved_names ex A B) n \<noteq> None
                   \<and> t \<in> set ts)"
    using o by blast
  also have "\<dots> \<longleftrightarrow> t \<in> movies_of ?dm n \<and> map_of (resolved_names ex A B) n \<noteq> None"
    using d by (auto simp: movies_of_def split: option.splits dest: eq_key_imp_eq_value)
  finally show ?thesis .
qed

lemma resolved_names_keys:
  "fst ` set (resolved_names ex A B) \<subseteq> fst ` set (extract_director_relationships ex A)"
  unfolding resolved_names_def
  using extract_director_names_keys[of "map fst (extract_director_relationships ex A)" B]
  by simp

lemma example_run:
  "build (\<lambda>s. s) example_a example_b example_store = (Inr (), example_result)"
proof -
  have m: "movies example_store = Some [(''t1'', ()), (''t2'', ())]"
    by (simp add: example_store_def)
  have "link_rows (\<lambda>s. s) [(''n1'', [''t1''])] = [(''t1'', ''n1'')]"
    by (simp add: link_rows_def)
  then show ?thesis
    using build_ok[OF m iteration_order_id, of example_a example_b]
    by (simp add: example_resolved example_filtered example_result_def example_store_def)
qed

lemma example_result_fields:
  "movies example_result = Some [(''t1'', ()), (''t2'', ())]"
  "directors example_result = Some [(''n1'', ''Alice'')]"
  "movie_directors example_result = Some [(''t1'', ''n1'')]"
  by (simp_all add: example_result_def)

text \<open>
  Claim C2. Every row \<open>(tconst, nconst)\<close> of the link table after a run has its movie
  key in the key set that \<open>get_existing_movie_ids\<close> loads from the store: no link
  refers to a movie outside the loaded set.
\<close>

theorem link_movie_key_was_loaded:
  assumes "iteration_order ord" and "build ord extract_a extract_b s = (r, s')"
    and "movie_directors s' = Some links" and "(tconst, nconst) \<in> set links"
  shows "\<exists>existing_movies.
           get_existing_movie_ids s = Inr existing_movies \<and> tconst \<in> set existing_movies"
proof (cases "movies s")
  case None
  with build_links[OF assms(1,2,3)] assms(4) show ?thesis by simp
next
  case (Some ms)
  let ?ex = "remdups (map fst ms)"
  from build_links[OF assms(1,2,3)] Some
  have l: "links = link_rows ord (filtered_movies ?ex extract_a extract_b)" by simp
  from assms(4) l
  have "tconst \<in> movies_of (extract_director_relationships ?ex extract_a) nconst"
    by (simp add: link_rows_filtered_mem[OF assms(1)])
  with movies_of_subset[OF extract_ok] have "tconst \<in> set ?ex" by blast
  moreover from Some have "get_existing_movie_ids s = Inr ?ex"
    by (simp add: get_existing_movie_ids_def)
  ultimately show ?thesis by blast
qed

theorem link_movie_key_was_loaded_witness:
  "iteration_order (\<lambda>s::string list. s)
   \<and> build (\<lambda>s. s) example_a example_b example_store = (Inr (), example_result)
   \<and> movie_directors example_result = Some [(''t1'', ''n1'')]
   \<and> (''t1'', ''n1'') \<in> set [(''t1'', ''n1'')]
   \<and> (\<exists>existing_movies. get_existing_movie_ids example_store = Inr existing_movies
          \<and> ''t1'' \<in> set existing_movies)"
  using link_movie_key_was_loaded[OF iteration_order_id example_run,
          of "[(''t1'', ''n1'')]" "''t1''" "''n1''"]
  by (simp add: iteration_order_id example_run example_result_fields)

lemma example_repeated_relationships:
  "extract_director_relationships [''t1'', ''t2''] example_a_repeated
     = [(''n1'', [''t1'']), (''n2'', [''t2''])]"
  by (simp add: extract_director_relationships_def example_a_repeated_def example_a_def
        principal_def relationship_step_def set_add_def)

lemma example_repeated_run:
  "build (\<lambda>s. s) example_a_repeated example_b example_store = (Inr (), example_result)"
proof -
  have m: "movies example_store = Some [(''t1'', ()), (''t2'', ())]"
    by (simp add: example_store_def)
  have n: "resolved_names [''t1'', ''t2''] example_a_repeated example_b = [(''n1'', ''Alice'')]"
    by (simp add: resolved_names_def extract_director_names_def
          example_repeated_relationships example_names)
  have f: "filtered_movies [''t1'', ''t2''] example_a_repeated example_b = [(''n1'', [''t1''])]"
    by (simp add: filtered_movies_def n example_repeated_relationships)
  have "link_rows (\<lambda>s. s) [(''n1'', [''t1''])] = [(''t1'', ''n1'')]"
    by (simp add: link_rows_def)
  then show ?thesis
    using build_ok[OF m iteration_order_id, of example_a_repeated example_b]
    by (simp add: n f example_result_def example_store_def)
qed

text \<open>
  Claim C3. Every row \<open>(tconst, nconst)\<close> of the link table after a run has a row of
  the directors table with the same \<open>nconst\<close>: the filter of step 6 keeps only the
  directors whose name was resolved, and all of those are inserted.
\<close>

theorem link_director_has_row:
  assumes "iteration_order ord" and "build ord extract_a extract_b s = (r, s')"
    and "movie_directors s' = Some links" and "(tconst, nconst) \<in> set links"
  shows "\<exists>rows name. directors s' = Some rows \<and> (nconst, name) \<in> set rows"
proof (cases "movies s")
  case None
  with build_links[OF assms(1,2,3)] assms(4) show ?thesis by simp
next
  case (Some ms)
  let ?names = "resolved_names (remdups (map fst ms)) extract_a extract_b"
  from build_links[OF assms(1,2,3)] Some
  have l: "links = link_rows ord (filtered_movies (remdups (map fst ms)) extract_a extract_b)"
    by simp
  from build_directors_exist[OF assms(1,2)] obtain rows where d: "directors s' = Some rows"
    by blast
  from build_directors[OF assms(1,2) d] Some have rows: "rows = ?names" by simp
  from assms(4) l have "map_of ?names nconst \<noteq> None"
    by (simp add: link_rows_filtered_mem[OF assms(1)])
  then obtain name where "map_of ?names nconst = Some name" by blast
  then have "(nconst, name) \<in> set ?names" by (rule map_of_SomeD)
  with d rows show ?thesis by blast
qed

theorem link_director_has_row_witness:
  "iteration_order (\<lambda>s::string list. s)
   \<and> build (\<lambda>s. s) example_a example_b example_store = (Inr (), example_result)
   \<and> movie_directors example_result = Some [(''t1'', ''n1'')]
   \<and> (''t1'', ''n1'') \<in> set [(''t1'', ''n1'')]
   \<and> (\<exists>rows name. directors example_result = Some rows \<and> (''n1'', name) \<in> set rows)"
  using link_director_has_row[OF iteration_order_id example_run,
          of "[(''t1'', ''n1'')]" "''t1''" "''n1''"]
  by (simp add: iteration_order_id example_run example_result_fields)

text \<open>
  Claim C4. The link table after a run holds no pair \<open>(tconst, nconst)\<close> twice,
  whatever the extracts contain, repeated records included.
\<close>

theorem links_pairwise_distinct:
  assumes "iteration_order ord" and "build ord extract_a extract_b s = (r, s')"
    and "movie_directors s' = Some links"
  shows "distinct links"
proof (cases "movies s")
  case None
  with build_links[OF assms] show ?thesis by simp
next
  case (Some ms)
  with build_links[OF assms]
  have "links = link_rows ord (filtered_movies (remdups (map fst ms)) extract_a extract_b)"
    by simp
  then show ?thesis by (simp add: filtered_link_rows_distinct[OF assms(1)])
qed

theorem links_pairwise_distinct_witness:
  "iteration_order (\<lambda>s::string list. s)
   \<and> build (\<lambda>s. s) example_a_repeated example_b example_store = (Inr (), example_result)
   \<and> movie_directors example_result = Some [(''t1'', ''n1'')]
   \<and> distinct [(''t1'', ''n1'')]"
  using links_pairwise_distinct[OF iteration_order_id example_repeated_run,
          of "[(''t1'', ''n1'')]"]
  by (simp add: iteration_order_id example_repeated_run example_result_fields)

text \<open>
  Claim C10. After a run the person keys of the directors table are exactly the person
  keys that occur in the link table: every director row has at least one link.
\<close>

theorem directors_are_linked:
  assumes "iteration_order ord" and "build ord extract_a extract_b s = (r, s')"
    and "directors s' = Some rows" and "movie_directors s' = Some links"
  shows "fst ` set rows = snd ` set links"
proof (cases "movies s")
  case None
  with build_directors[OF assms(1,2,3)] build_links[OF assms(1,2,4)] show ?thesis by simp
next
  case (Some ms)
  let ?ex = "remdups (map fst ms)"
  let ?dm = "extract_director_relationships ?ex extract_a"
  let ?names = "resolved_names ?ex extract_a extract_b"
  from build_directors[OF assms(1,2,3)] Some have rows: "rows = ?names" by simp
  from build_links[OF assms(1,2,4)] Some
  have links: "links = link_rows ord (filtered_movies ?ex extract_a extract_b)" by simp
  have ok: "multimap_ok ?ex ?dm" by (rule extract_ok)
  have mem: "(t, n) \<in> set links \<longleftrightarrow> t \<in> movies_of ?dm n \<and> map_of ?names n \<noteq> None"
    for t n
    unfolding links by (rule link_rows_filtered_mem[OF assms(1)])
  show ?thesis
  proof (intro set_eqI iffI)
    fix n assume "n \<in> fst ` set rows"
    then have n: "n \<in> fst ` set ?names" by (simp add: rows)
    then have "map_of ?names n \<noteq> None" by (simp add: map_of_eq_None_iff)
    moreover from n resolved_names_keys have "n \<in> fst ` set ?dm" by blast
    then have "movies_of ?dm n \<noteq> {}" by (rule movies_of_nonempty[OF ok])
    then obtain t where "t \<in> movies_of ?dm n" by blast
    ultimately have "(t, n) \<in> set links" by (simp add: mem)
    then show "n \<in> snd ` set links" by force
  next
    fix n assume "n \<in> snd ` set links"
    then obtain t where "(t, n) \<in> set links" by auto
    then have "map_of ?names n \<noteq> None" by (simp add: mem)
    then have "n \<in> fst ` set ?names" by (simp add: map_of_eq_None_iff)
    then show "n \<in> fst ` set rows" by (simp add: rows)
  qed
qed

theorem directors_are_linked_witness:
  "iteration_order (\<lambda>s::string list. s)
   \<and> build (\<lambda>s. s) example_a example_b example_store = (Inr (), example_result)
   \<and> directors example_result = Some [(''n1'', ''Alice'')]
   \<and> movie_directors example_result = Some [(''t1'', ''n1'')]
   \<and> fst ` set [(''n1'', ''Alice'')] = snd ` set [(''t1'', ''n1'')]"
  using directors_are_linked[OF iteration_order_id example_run,
          of "[(''n1'', ''Alice'')]" "[(''t1'', ''n1'')]"]
  by (simp add: iteration_order_id example_run example_result_fields)

section \<open>Reruns, single records and the scan of Extract B\<close>

lemma iteration_order_rev: "iteration_order rev"
  by (simp add: iteration_order_def)

lemma set_link_rows_filtered:
  assumes "iteration_order ord1" and "iteration_order ord2"
  shows "set (link_rows ord1 (filtered_movies ex A B)) = set (link_rows ord2 (filtered_movies ex A B))"
proof (intro set_eqI)
  fix p :: "string \<times> string"
  obtain t n where p: "p = (t, n)" by (cases p)
  show "p \<in> set (link_rows ord1 (filtered_movies ex A B))
          \<longleftrightarrow> p \<in> set (link_rows ord2 (filtered_movies ex A B))"
    unfolding p link_rows_filtered_mem[OF assms(1)] link_rows_filtered_mem[OF assms(2)] ..
qed

lemma example_rerun:
  "build rev example_a example_b example_result = (Inr (), example_result)"
proof -
  have m: "movies example_result = Some [(''t1'', ()), (''t2'', ())]"
    by (simp add: example_result_def)
  have "link_rows rev [(''n1'', [''t1''])] = [(''t1'', ''n1'')]"
    by (simp add: link_rows_def)
  then show ?thesis
    using build_ok[OF m iteration_order_rev, of example_a example_b]
    by (simp add: example_resolved example_filtered example_result_def)
qed

text \<open>
  Claim C8. Two runs in succession on the same extracts, the second on the store that
  the first one left, end with the same set of director rows and the same set of link
  rows, even when the two runs iterate over sets in different orders: every run drops
  the derived tables first and rebuilds them from the movies table, which no run changes.
\<close>

theorem rerun_same_rows:
  assumes "iteration_order ord1" and "iteration_order ord2"
    and "build ord1 extract_a extract_b s = (r1, s1)"
    and "build ord2 extract_a extract_b s1 = (r2, s2)"
  shows "map_option set (directors s2) = map_option set (directors s1)
         \<and> map_option set (movie_directors s2) = map_option set (movie_directors s1)"
proof (cases "movies s")
  case None
  then have "movies s1 = None" using build_movies[OF assms(3)] by simp
  from build_no_movies[OF None, of ord1 extract_a extract_b]
       build_no_movies[OF this, of ord2 extract_a extract_b] assms(3,4)
  show ?thesis by auto
next
  case (Some ms)
  then have "movies s1 = Some ms" using build_movies[OF assms(3)] by simp
  from build_ok[OF Some assms(1), of extract_a extract_b]
       build_ok[OF this assms(2), of extract_a extract_b] assms(3,4)
  show ?thesis
    using set_link_rows_filtered[OF assms(1,2)] by auto
qed

theorem rerun_same_rows_witness:
  "iteration_order (\<lambda>s::string list. s) \<and> iteration_order (rev :: string list \<Rightarrow> string list)
   \<and> build (\<lambda>s. s) example_a example_b example_store = (Inr (), example_result)
   \<and> build rev example_a example_b example_result = (Inr (), example_result)
   \<and> map_option set (directors example_result) = Some {(''n1'', ''Alice'')}
   \<and> map_option set (movie_directors example_result) = Some {(''t1'', ''n1'')}"
  using rerun_same_rows[OF iteration_order_id iteration_order_rev example_run example_rerun]
  by (simp add: iteration_order_id iteration_order_rev example_run example_rerun
        example_result_fields)

lemma add_link_keys: "fst ` set (add_link n t dm) = insert n (fst ` set dm)"
proof (cases "map_of dm n")
  case None
  then show ?thesis by (simp add: add_link_def dom_map_entry dom_update)
next
  case (Some ts)
  then have "(n, ts) \<in> set dm" by (rule map_of_SomeD)
  then have "n \<in> fst ` set dm" by force
  with Some show ?thesis by (auto simp: add_link_def dom_map_entry)
qed

lemma relationship_step_movies_of:
  "movies_of (relationship_step ex dm row) k =
     (if is_director_record ex row \<and> row ''nconst'' = Some k
      then insert (the (row ''tconst'')) (movies_of dm k) else movies_of dm k)"
proof (cases "is_director_record ex row")
  case False
  then show ?thesis by (simp add: step_eq)
next
  case True
  then obtain t n where f: "row ''tconst'' = Some t" "row ''nconst'' = Some n"
    by (auto simp: is_director_record_def split: option.splits)
  with True show ?thesis by (auto simp: step_eq add_link_movies_of)
qed

lemma extract_snoc:
  "extract_director_relationships ex (rows @ [row])
     = relationship_step ex (extract_director_relationships ex rows) row"
  by (simp add: extract_director_relationships_def)

lemma extract_movies_of:
  "t \<in> movies_of (extract_director_relationships ex rows) n \<longleftrightarrow>
     (\<exists>row \<in> set rows. is_director_record ex row
        \<and> row ''tconst'' = Some t \<and> row ''nconst'' = Some n)"
proof (induction rows rule: rev_induct)
  case Nil
  show ?case by (simp add: extract_director_relationships_def movies_of_def)
next
  case (snoc row rows)
  have tc: "is_director_record ex row \<Longrightarrow> row ''tconst'' \<noteq> None"
    by (auto simp: is_director_record_def split: option.splits)
  show ?case
    unfolding extract_snoc relationship_step_movies_of
    using snoc.IH tc by auto
qed

lemma example_matching_record:
  "is_director_record [''t1'', ''t2''] (principal ''t1'' ''n1'' ''director'')"
  "\<not> is_director_record [''t1'', ''t2''] (principal ''t1'' ''n1'' ''actor'')"
  by (simp_all add: is_director_record_def principal_def)

lemma example_prefix_relationships:
  "extract_director_relationships [''t1'', ''t2''] [principal ''t1'' ''n1'' ''director'']
     = [(''n1'', [''t1''])]"
  "extract_director_relationships [''t1'', ''t2''] [] = []"
  by (simp_all add: extract_director_relationships_def principal_def relationship_step_def
        set_add_def)

text \<open>
  Claim C7. The extractor treats every record of Extract A by the same test. Let the
  extractor have read the records \<open>rows\<close> and let \<open>row\<close> be the next record. If the
  role of \<open>row\<close> is \<open>director\<close>, its two key fields are non-empty and its movie
  key is in the loaded set, then reading \<open>row\<close> adds its movie key to the set of its
  director key (a key that the multimap gains if it was absent) and leaves every other
  entry as it was; if \<open>row\<close> fails one of the three conditions, the multimap after
  \<open>row\<close> is the multimap before it. Hence the multimap that the extractor returns for
  an extract holds a movie key under a director key exactly when some record of the
  extract passes the test with these two keys.
\<close>

theorem extractor_adds_iff_director_record:
  "(is_director_record existing_movies row \<longrightarrow>
      (\<exists>tconst nconst.
         row ''tconst'' = Some tconst \<and> row ''nconst'' = Some nconst \<and>
         fst ` set (extract_director_relationships existing_movies (rows @ [row]))
           = insert nconst (fst ` set (extract_director_relationships existing_movies rows)) \<and>
         (\<forall>k. movies_of (extract_director_relationships existing_movies (rows @ [row])) k
                = (if k = nconst
                   then insert tconst
                          (movies_of (extract_director_relationships existing_movies rows) k)
                   else movies_of (extract_director_relationships existing_movies rows) k))))
   \<and> (\<not> is_director_record existing_movies row \<longrightarrow>
        extract_director_relationships existing_movies (rows @ [row])
          = extract_director_relationships existing_movies rows)
   \<and> (\<forall>t n. t \<in> movies_of (extract_director_relationships existing_movies extract_a) n
          \<longleftrightarrow> (\<exists>r \<in> set extract_a. is_director_record existing_movies r
                 \<and> r ''tconst'' = Some t \<and> r ''nconst'' = Some n))"
proof (intro conjI)
  let ?dm = "extract_director_relationships existing_movies rows"
  show "is_director_record existing_movies row \<longrightarrow>
      (\<exists>tconst nconst.
         row ''tconst'' = Some tconst \<and> row ''nconst'' = Some nconst \<and>
         fst ` set (extract_director_relationships existing_movies (rows @ [row]))
           = insert nconst (fst ` set ?dm) \<and>
         (\<forall>k. movies_of (extract_director_relationships existing_movies (rows @ [row])) k
                = (if k = nconst then insert tconst (movies_of ?dm k) else movies_of ?dm k)))"
  proof
    assume m: "is_director_record existing_movies row"
    then obtain tconst nconst where
      f: "row ''tconst'' = Some tconst" "row ''nconst'' = Some nconst"
      by (auto simp: is_director_record_def split: option.splits)
    with m have "extract_director_relationships existing_movies (rows @ [row])
                   = add_link nconst tconst ?dm"
      by (simp add: extract_snoc step_eq)
    with f show "\<exists>tconst nconst.
         row ''tconst'' = Some tconst \<and> row ''nconst'' = Some nconst \<and>
         fst ` set (extract_director_relationships existing_movies (rows @ [row]))
           = insert nconst (fst ` set ?dm) \<and>
         (\<forall>k. movies_of (extract_director_relationships existing_movies (rows @ [row])) k
                = (if k = nconst then insert tconst (movies_of ?dm k) else movies_of ?dm k))"
      by (simp add: add_link_keys add_link_movies_of)
  qed
next
  show "\<not> is_director_record existing_movies row \<longrightarrow>
        extract_director_relationships existing_movies (rows @ [row])
          = extract_director_relationships existing_movies rows"
    by (simp add: extract_snoc step_eq)
next
  show "\<forall>t n. t \<in> movies_of (extract_director_relationships existing_movies extract_a) n
          \<longleftrightarrow> (\<exists>r \<in> set extract_a. is_director_record existing_movies r
                 \<and> r ''tconst'' = Some t \<and> r ''nconst'' = Some n)"
    by (intro allI) (rule extract_movies_of)
qed

theorem extractor_adds_iff_director_record_witness:
  "is_director_record [''t1'', ''t2''] (principal ''t1'' ''n1'' ''director'')
   \<and> fst ` set (extract_director_relationships [''t1'', ''t2'']
                   ([] @ [principal ''t1'' ''n1'' ''director''])) = {''n1''}
   \<and> movies_of (extract_director_relationships [''t1'', ''t2'']
                   ([] @ [principal ''t1'' ''n1'' ''director''])) ''n1'' = {''t1''}
   \<and> \<not> is_director_record [''t1'', ''t2''] (principal ''t1'' ''n1'' ''actor'')
   \<and> extract_director_relationships [''t1'', ''t2'']
         ([principal ''t1'' ''n1'' ''director''] @ [principal ''t1'' ''n1'' ''actor''])
       = [(''n1'', [''t1''])]
   \<and> ''t1'' \<in> movies_of (extract_director_relationships [''t1'', ''t2''] example_a) ''n1''
   \<and> ''t2'' \<notin> movies_of (extract_director_relationships [''t1'', ''t2''] example_a) ''n1''"
proof -
  note a = extractor_adds_iff_director_record
             [of "[''t1'', ''t2'']" "principal ''t1'' ''n1'' ''director''" "[]" example_a]
  note b = extractor_adds_iff_director_record
             [of "[''t1'', ''t2'']" "principal ''t1'' ''n1'' ''actor''"
                 "[principal ''t1'' ''n1'' ''director'']" example_a]
  from a example_matching_record(1)
  have k: "fst ` set (extract_director_relationships [''t1'', ''t2'']
                   ([] @ [principal ''t1'' ''n1'' ''director''])) = {''n1''}"
    and m: "movies_of (extract_director_relationships [''t1'', ''t2'']
                   ([] @ [principal ''t1'' ''n1'' ''director''])) ''n1'' = {''t1''}"
    by (simp_all add: principal_def example_prefix_relationships(2) movies_of_def)
  from b example_matching_record(2)
  have u: "extract_director_relationships [''t1'', ''t2'']
         ([principal ''t1'' ''n1'' ''director''] @ [principal ''t1'' ''n1'' ''actor''])
       = [(''n1'', [''t1''])]"
    by (simp add: example_prefix_relationships(1))
  have g: "''t1'' \<in> movies_of (extract_director_relationships [''t1'', ''t2''] example_a) ''n1''"
    "''t2'' \<notin> movies_of (extract_director_relationships [''t1'', ''t2''] example_a) ''n1''"
    by (simp_all add: example_relationships movies_of_def)
  from k m u g example_matching_record show ?thesis by simp
qed

lemma needed_row_remdups: "needed_row (remdups needed) row = needed_row needed row"
  by (cases "row ''nconst''") (simp_all add: needed_row_def)

lemma resolve_step_remdups: "resolve_step (remdups needed) = resolve_step needed"
  by (simp add: fun_eq_iff resolve_step_eq needed_row_remdups)

text \<open>
  Claim C6. When the scan has read every record of Extract B, the resolver returns the
  mapping accumulated over the whole extract, whether or not every needed key found a
  name: the keys of the result are needed keys, possibly not all of them. The resolver
  has no error outcome, so a missing name is not an error; only the filter of step 6
  looks at which keys are missing.
\<close>

theorem resolver_returns_partial_mapping:
  assumes "rows_scanned director_nconsts extract_b = length extract_b"
  shows "extract_director_names director_nconsts extract_b
           = resolve_all director_nconsts extract_b
         \<and> fst ` set (extract_director_names director_nconsts extract_b)
             \<subseteq> set director_nconsts"
proof -
  have "extract_director_names director_nconsts extract_b
          = foldl (resolve_step (remdups director_nconsts)) []
              (take (rows_scanned director_nconsts extract_b) extract_b)"
    unfolding extract_director_names_def rows_scanned_def by (rule scan_names_prefix)
  with assms have "extract_director_names director_nconsts extract_b
                     = resolve_all director_nconsts extract_b"
    by (simp add: resolve_all_def resolve_step_remdups)
  with extract_director_names_keys[of director_nconsts extract_b] show ?thesis by simp
qed

theorem resolver_returns_partial_mapping_witness:
  "rows_scanned [''n1'', ''n2''] example_b = length example_b
   \<and> extract_director_names [''n1'', ''n2''] example_b = [(''n1'', ''Alice'')]
   \<and> resolve_all [''n1'', ''n2''] example_b = [(''n1'', ''Alice'')]
   \<and> ''n2'' \<notin> fst ` set (extract_director_names [''n1'', ''n2''] example_b)"
proof -
  have r: "rows_scanned [''n1'', ''n2''] example_b = length example_b"
    by (simp add: rows_scanned_def example_names) (simp add: example_b_def)
  have e: "extract_director_names [''n1'', ''n2''] example_b = [(''n1'', ''Alice'')]"
    by (simp add: extract_director_names_def example_names)
  have a: "resolve_all [''n1'', ''n2''] example_b = [(''n1'', ''Alice'')]"
    using resolver_returns_partial_mapping[OF r] e by simp
  show ?thesis by (simp add: r e a)
qed

text \<open>
  Claim C5 does not hold of the code. The scan counts every stored name in
  \<open>names_found\<close>, also the second name of a key that it has already resolved, and
  leaves when that count equals the number of needed keys. With the needed keys
  \<open>n1\<close> and \<open>n2\<close> and an Extract B that holds the record of \<open>n1\<close> twice before
  the record of \<open>n2\<close>, the scan stops after two of the three records with one key
  resolved; a scan of the whole extract resolves both.
\<close>

theorem resolver_stops_on_repeated_record:
  "scan_names [''n1'', ''n2''] example_b_repeated = ([(''n1'', ''Alice'')], 2, 2)
   \<and> length example_b_repeated = 3
   \<and> resolve_all [''n1'', ''n2''] example_b_repeated = [(''n1'', ''Alice''), (''n2'', ''Bob'')]"
  by (simp add: scan_names_def example_b_repeated_def name_record_def null_sentinel_def
        resolve_all_def resolve_step_def)

end
